theory Spec2Isabelle
  imports Complex_Main "HOL-Library.Multiset" "HOL-Library.Log_Nat"
begin

section \<open>Evaluation utilities of the board-game recommender (tools/testing.py)\<close>

subsection \<open>Tables\<close>

text \<open>
  A ratings table and a recommendation table are data frames: ordered collections of rows.
  The functions of \<^verbatim>\<open>tools/testing.py\<close> read two columns by name, \<^verbatim>\<open>bgg_user_name\<close> and
  \<^verbatim>\<open>bgg_id\<close>, and pass every row on as a whole; the row's index label and every further
  column are the field \<open>other\<close>, of an arbitrary type.  A cell of the user column may hold a
  missing value (NaN), which is \<open>None\<close>.
\<close>

record ('u, 'i, 'r) row =
  bgg_user_name :: "'u option"
  bgg_id :: 'i
  other :: 'r

type_synonym ('u, 'i, 'r) table = "('u, 'i, 'r) row list"

subsection \<open>Operations of pandas and numpy used by the code\<close>

text \<open>
  \<^verbatim>\<open>Series.unique()\<close>: the distinct values of a column, in order of first appearance.
\<close>

fun unique :: "'a list \<Rightarrow> 'a list" where
  "unique [] = []"
| "unique (x # xs) = x # unique (filter (\<lambda>y. y \<noteq> x) xs)"

text \<open>
  A float is modelled by the rational number it denotes.  Python's \<^verbatim>\<open>int(x)\<close> on a float
  truncates towards zero.
\<close>

definition py_int :: "rat \<Rightarrow> int" where
  "py_int x = (if 0 \<le> x then \<lfloor>x\<rfloor> else \<lceil>x\<rceil>)"

text \<open>
  Python 3's \<^verbatim>\<open>round(x)\<close> on a float gives the nearest integer, and the even one of the two
  when \<open>x\<close> lies halfway between them; the result is an \<^verbatim>\<open>int\<close> already, so the \<^verbatim>\<open>int(...)\<close>
  around it changes nothing.
\<close>

definition py_round :: "rat \<Rightarrow> int" where
  "py_round x =
     (let f = \<lfloor>x\<rfloor>; d = x - of_int f
      in if d < 1 / 2 then f
         else if 1 / 2 < d then f + 1
         else if even f then f else f + 1)"

subsection \<open>Floating-point arithmetic\<close>

text \<open>
  Python's floats are IEEE 754 doubles: numbers with a significand of 53 bits, and every
  operation gives the double nearest to the exact result, the one with the even significand
  when two are equally near.  For a positive \<open>x\<close>, \<open>exponent x\<close> is the integer \<open>e\<close> with
  \<open>2 ^ e \<le> x < 2 ^ (e + 1)\<close>; the doubles of this binade are the multiples of
  \<open>2 ^ (e - 52)\<close>, and \<open>to_double x\<close> is the multiple nearest to \<open>x\<close>.  The range of the
  exponent of a double (overflow from \<open>2 ^ 1024\<close> on, gradual underflow below \<open>2 ^ - 1022\<close>)
  is not modelled.
\<close>

definition exponent :: "rat \<Rightarrow> int" where
  "exponent x = (if 1 \<le> x then bitlen \<lfloor>x\<rfloor> - 1 else - bitlen (\<lceil>1 / x\<rceil> - 1))"

definition to_double :: "rat \<Rightarrow> rat" where
  "to_double x =
     (if x = 0 then 0
      else (let ulp = 2 powi (exponent \<bar>x\<bar> - 52)
            in of_int (py_round (x / ulp)) * ulp))"

text \<open>
  The products \<^verbatim>\<open>frac*users.shape[0]\<close> and \<^verbatim>\<open>frac*df_size\<close> of a float and an \<^verbatim>\<open>int\<close>:
  the \<^verbatim>\<open>int\<close> is converted to a float and the product of the two floats is rounded to a
  float.  The fraction is the number written in the call; the float that Python makes of it
  is \<open>to_double\<close> of it.
\<close>

definition float_mul :: "rat \<Rightarrow> nat \<Rightarrow> rat" where
  "float_mul x n = to_double (to_double x * to_double (of_nat n))"

text \<open>
  The slices \<^verbatim>\<open>xs[:k]\<close> and \<^verbatim>\<open>xs[k:]\<close>: a negative bound counts from the end, and a bound
  outside the sequence is clipped.
\<close>

definition slice_index :: "int \<Rightarrow> nat \<Rightarrow> nat" where
  "slice_index k n = (if k < 0 then nat (max 0 (int n + k)) else min (nat k) n)"

definition slice_to :: "int \<Rightarrow> 'a list \<Rightarrow> 'a list" where
  "slice_to k xs = take (slice_index k (length xs)) xs"

definition slice_from :: "int \<Rightarrow> 'a list \<Rightarrow> 'a list" where
  "slice_from k xs = drop (slice_index k (length xs)) xs"

subsection \<open>The random number generator\<close>

text \<open>
  The code draws from numpy's process-wide generator.  The generator itself is not part of
  the repository, so it is a parameter: \<open>np_seed\<close> is \<^verbatim>\<open>np.random.seed\<close>, giving the state
  set by a seed, and \<open>random_interval s m\<close> draws a number between 0 and \<open>m\<close> (inclusive)
  from the state \<open>s\<close> and gives the next state.  The state of the generator is passed
  to every function that draws and returned by it.
\<close>

record ('sd, 's) generator =
  np_seed :: "'sd \<Rightarrow> 's"
  random_interval :: "'s \<Rightarrow> nat \<Rightarrow> nat \<times> 's"

text \<open>\<^verbatim>\<open>x[i], x[j] = x[j], x[i]\<close>\<close>

definition swap :: "nat \<Rightarrow> nat \<Rightarrow> 'a list \<Rightarrow> 'a list" where
  "swap i j xs = xs[i := xs ! j, j := xs ! i]"

text \<open>
  \<^verbatim>\<open>np.random.shuffle(x)\<close> is numpy's loop
  \<^verbatim>\<open>for i in reversed(range(1, n)): j = random_interval(i); x[i], x[j] = x[j], x[i]\<close>.
  The draw is reduced modulo \<open>i + 1\<close>, which changes nothing for a generator that keeps
  its contract (a draw between 0 and \<open>i\<close>) and keeps the position inside the array for
  every other parameter.
\<close>

fun shuffle_from :: "('s \<Rightarrow> nat \<Rightarrow> nat \<times> 's) \<Rightarrow> nat \<Rightarrow> 'a list \<Rightarrow> 's \<Rightarrow> 'a list \<times> 's" where
  "shuffle_from ri 0 xs s = (xs, s)"
| "shuffle_from ri (Suc k) xs s =
     (let (r, s') = ri s (Suc k);
          j = r mod (Suc k + 1)
      in shuffle_from ri k (swap (Suc k) j xs) s')"

definition shuffle :: "('sd, 's) generator \<Rightarrow> 'a list \<Rightarrow> 's \<Rightarrow> 'a list \<times> 's" where
  "shuffle gen xs s = shuffle_from (random_interval gen) (length xs - 1) xs s"

text \<open>
  \<^verbatim>\<open>if seed is not None: np.random.seed(seed)\<close>, on the state \<open>g\<close> of the process-wide generator.
\<close>

definition seed_generator :: "('sd, 's) generator \<Rightarrow> 's \<Rightarrow> 'sd option \<Rightarrow> 's" where
  "seed_generator gen g seed = (case seed of None \<Rightarrow> g | Some sd \<Rightarrow> np_seed gen sd)"

subsection \<open>split\_ratings\_dataset\<close>

text \<open>
  \<^verbatim>\<open>
  def split_ratings_dataset(ratings_df, seed=None, frac=0.7):
      if seed is not None:
          np.random.seed(seed)
      users = ratings_df['bgg_user_name'].unique()
      np.random.shuffle(users)
      train_size = int(frac*users.shape[0])
      train_df = ratings_df[ratings_df['bgg_user_name'].isin(users[:train_size])]
      test_df = ratings_df[ratings_df['bgg_user_name'].isin(users[train_size:])]
      return train_df, test_df
  \<close>
  The result is paired with the state in which the call leaves the generator.  The parameter
  \<^verbatim>\<open>frac\<close> is written \<open>fraction\<close>.
\<close>

definition shuffled_users ::
  "('sd, 's) generator \<Rightarrow> 's \<Rightarrow> ('u, 'i, 'r) table \<Rightarrow> 'sd option \<Rightarrow> 'u option list \<times> 's" where
  "shuffled_users gen g ratings_df seed =
     (let g0 = seed_generator gen g seed;
          users = unique (map bgg_user_name ratings_df)
      in shuffle gen users g0)"

definition split_ratings_dataset ::
  "('sd, 's) generator \<Rightarrow> 's \<Rightarrow> ('u, 'i, 'r) table \<Rightarrow> 'sd option \<Rightarrow> rat
     \<Rightarrow> (('u, 'i, 'r) table \<times> ('u, 'i, 'r) table) \<times> 's" where
  "split_ratings_dataset gen g ratings_df seed fraction =
     (let (users, g1) = shuffled_users gen g ratings_df seed;
          train_size = py_int (float_mul fraction (length users));
          train_df = filter (\<lambda>r. bgg_user_name r \<in> set (slice_to train_size users)) ratings_df;
          test_df = filter (\<lambda>r. bgg_user_name r \<in> set (slice_from train_size users)) ratings_df
      in ((train_df, test_df), g1))"

subsection \<open>split\_testing\_set\<close>

text \<open>The exceptions that the library calls of the code raise.\<close>

datatype error = ValueError | KeyError | IndexError

text \<open>\<^verbatim>\<open>np.random.permutation(n)\<close> shuffles \<^verbatim>\<open>np.arange(n)\<close>.\<close>

definition permutation :: "('sd, 's) generator \<Rightarrow> nat \<Rightarrow> 's \<Rightarrow> nat list \<times> 's" where
  "permutation gen n s = shuffle gen [0..<n] s"

text \<open>
  \<^verbatim>\<open>np.random.choice(a, size, replace=False)\<close> for an integer \<open>a\<close>: numpy raises
  \<^verbatim>\<open>ValueError\<close> for an empty population with a sample to take, for a sample larger than the
  population and for a negative size, and otherwise returns the first \<open>size\<close> entries of
  \<^verbatim>\<open>permutation(a)\<close>.  The parameter \<^verbatim>\<open>size\<close> is written \<open>sample_size\<close>.
\<close>

definition choice :: "('sd, 's) generator \<Rightarrow> nat \<Rightarrow> int \<Rightarrow> 's \<Rightarrow> error + (nat list \<times> 's)" where
  "choice gen pop_size sample_size s =
     (if pop_size = 0 \<and> sample_size \<noteq> 0 then Inl ValueError
      else if int pop_size < sample_size then Inl ValueError
      else if sample_size < 0 then Inl ValueError
      else (let (idx, s') = permutation gen pop_size s
            in Inr (take (nat sample_size) idx, s')))"

text \<open>\<^verbatim>\<open>df.iloc[indices]\<close>: the rows at the given positions, in the order given.\<close>

definition iloc :: "'a list \<Rightarrow> nat list \<Rightarrow> error + 'a list" where
  "iloc df indices =
     (if \<forall>i \<in> set indices. i < length df then Inr (map (\<lambda>i. df ! i) indices)
      else Inl IndexError)"

text \<open>
  \<^verbatim>\<open>np.setdiff1d(ar1, ar2)\<close>: the sorted distinct values of \<open>ar1\<close> that are not in \<open>ar2\<close>.
\<close>

definition setdiff1d :: "nat list \<Rightarrow> nat list \<Rightarrow> nat list" where
  "setdiff1d ar1 ar2 = filter (\<lambda>i. i \<notin> set ar2) (sort (remdups ar1))"

text \<open>
  \<^verbatim>\<open>df.groupby(by='bgg_user_name')\<close>, iterated: one group for each user of the column, in
  ascending order of the users; a group holds the rows of its user in their order in the
  table.  Rows with a missing user belong to no group.
\<close>

definition groupby :: "('u::linorder, 'i, 'r) table \<Rightarrow> ('u \<times> ('u, 'i, 'r) table) list" where
  "groupby df =
     map (\<lambda>u. (u, filter (\<lambda>r. bgg_user_name r = Some u) df))
       (sort (remdups (List.map_filter bgg_user_name df)))"

text \<open>\<^verbatim>\<open>pd.concat(objs)\<close> raises \<^verbatim>\<open>ValueError\<close> when there is nothing to concatenate.\<close>

definition pd_concat :: "'a list list \<Rightarrow> error + 'a list" where
  "pd_concat objs = (case objs of [] \<Rightarrow> Inl ValueError | _ \<Rightarrow> Inr (concat objs))"

text \<open>
  \<^verbatim>\<open>
  def split_testing_set(test_df, seed=None, frac=0.8):
      if seed is not None:
          np.random.seed(seed)
      grouped = test_df.groupby(by='bgg_user_name')
      test_known = []
      test_unknown = []
      for _, df in grouped:
          df_size = df.shape[0]
          known_size = int(round(frac*df_size))
          known_indices = np.random.choice(df_size, known_size, replace=False)
          known_data = df.iloc[known_indices]
          test_known.append(known_data)
          unknown_indices = np.setdiff1d(np.arange(df_size), known_indices)
          unknown_data = df.iloc[unknown_indices]
          test_unknown.append(unknown_data)
      return pd.concat(test_known), pd.concat(test_unknown)
  \<close>
  \<open>split_group\<close> is the body of the loop for one group, \<open>split_groups\<close> the loop.
\<close>

definition split_group ::
  "('sd, 's) generator \<Rightarrow> rat \<Rightarrow> 'a list \<Rightarrow> 's \<Rightarrow> error + (('a list \<times> 'a list) \<times> 's)" where
  "split_group gen fraction df s =
     (let df_size = length df;
          known_size = py_round (float_mul fraction df_size)
      in case choice gen df_size known_size s of
           Inl e \<Rightarrow> Inl e
         | Inr (known_indices, s') \<Rightarrow>
             (case iloc df known_indices of
                Inl e \<Rightarrow> Inl e
              | Inr known_data \<Rightarrow>
                  (let unknown_indices = setdiff1d [0..<df_size] known_indices
                   in case iloc df unknown_indices of
                        Inl e \<Rightarrow> Inl e
                      | Inr unknown_data \<Rightarrow> Inr ((known_data, unknown_data), s'))))"

fun split_groups ::
  "('sd, 's) generator \<Rightarrow> rat \<Rightarrow> 'a list list \<Rightarrow> 'a list list \<Rightarrow> 'a list list \<Rightarrow> 's
     \<Rightarrow> error + (('a list list \<times> 'a list list) \<times> 's)" where
  "split_groups gen fraction [] test_known test_unknown s = Inr ((test_known, test_unknown), s)"
| "split_groups gen fraction (df # grouped) test_known test_unknown s =
     (case split_group gen fraction df s of
        Inl e \<Rightarrow> Inl e
      | Inr ((known_data, unknown_data), s') \<Rightarrow>
          split_groups gen fraction grouped
            (test_known @ [known_data]) (test_unknown @ [unknown_data]) s')"

definition split_testing_set ::
  "('sd, 's) generator \<Rightarrow> 's \<Rightarrow> ('u::linorder, 'i, 'r) table \<Rightarrow> 'sd option \<Rightarrow> rat
     \<Rightarrow> error + ((('u, 'i, 'r) table \<times> ('u, 'i, 'r) table) \<times> 's)" where
  "split_testing_set gen g test_df seed fraction =
     (let g0 = seed_generator gen g seed;
          grouped = map snd (groupby test_df)
      in case split_groups gen fraction grouped [] [] g0 of
           Inl e \<Rightarrow> Inl e
         | Inr ((test_known, test_unknown), g1) \<Rightarrow>
             (case pd_concat test_known of
                Inl e \<Rightarrow> Inl e
              | Inr known \<Rightarrow>
                  (case pd_concat test_unknown of
                     Inl e \<Rightarrow> Inl e
                   | Inr unknown \<Rightarrow> Inr ((known, unknown), g1))))"

text \<open>The rows of one user in a table.\<close>

definition user_rows :: "'u \<Rightarrow> ('u, 'i, 'r) table \<Rightarrow> ('u, 'i, 'r) table" where
  "user_rows u df = filter (\<lambda>r. bgg_user_name r = Some u) df"

text \<open>A small generator for concrete runs: the state is a counter, and a draw is the state.\<close>

definition counter_generator :: "(nat, nat) generator" where
  "counter_generator = \<lparr>np_seed = (\<lambda>sd. sd), random_interval = (\<lambda>s m. (s mod (m + 1), s + 1))\<rparr>"

text \<open>
  A ratings table for concrete runs, with the users 1, 2 and 3 and one row without a user
  name, and a table of a single user.
\<close>

definition ratings_example :: "(nat, int, int) table" where
  "ratings_example =
     [\<lparr>bgg_user_name = Some 1, bgg_id = 10, other = 7\<rparr>,
      \<lparr>bgg_user_name = Some 2, bgg_id = 10, other = 8\<rparr>,
      \<lparr>bgg_user_name = Some 1, bgg_id = 11, other = 9\<rparr>,
      \<lparr>bgg_user_name = None, bgg_id = 11, other = 9\<rparr>,
      \<lparr>bgg_user_name = Some 3, bgg_id = 12, other = 6\<rparr>]"

definition one_rating_example :: "(nat, int, int) table" where
  "one_rating_example = [\<lparr>bgg_user_name = Some 7, bgg_id = 10, other = 5\<rparr>]"




subsection \<open>coverage\<close>

text \<open>
  \<^verbatim>\<open>
  def coverage(top_n_df):
      recommended_games = top_n_df['bgg_id'].unique()
      return recommended_games.size
  \<close>
\<close>

definition coverage :: "('u, 'i, 'r) table \<Rightarrow> nat" where
  "coverage top_n_df = (let recommended_games = unique (map bgg_id top_n_df)
                        in length recommended_games)"

subsection \<open>diversity\<close>

text \<open>
  The table of games has the column \<^verbatim>\<open>bgg_id\<close> and further columns, named by values of the
  type \<open>'c\<close>; the criterions are among these names.  A cell of such a column holds a list
  of labels, or a missing value (NaN).
\<close>

datatype 'l cell = Missing | Labels "'l list"

record ('i, 'c, 'l) game =
  game_id :: 'i
  attributes :: "'c \<Rightarrow> 'l cell"

record ('i, 'c, 'l) games_table =
  criterion_columns :: "'c list"
  game_rows :: "('i, 'c, 'l) game list"

text \<open>
  \<^verbatim>\<open>top_n_df[['bgg_user_name', 'bgg_id']].join(games_df, on='bgg_id', how='left')\<close>: every
  row of the left table, in order, once for each game with its \<^verbatim>\<open>bgg_id\<close>, and once with
  missing values in every column of the games when there is no such game.  The columns that
  come from the games are the field \<open>other\<close> of the joined row.
\<close>

definition left_join ::
  "('u, 'i, 'r) table \<Rightarrow> ('i, 'c, 'l) game list \<Rightarrow> ('u, 'i, 'c \<Rightarrow> 'l cell) table" where
  "left_join top_n_df games =
     concat (map (\<lambda>r.
       (case filter (\<lambda>g. game_id g = bgg_id r) games of
          [] \<Rightarrow> [\<lparr>bgg_user_name = bgg_user_name r, bgg_id = bgg_id r, other = (\<lambda>c. Missing)\<rparr>]
        | matches \<Rightarrow>
            map (\<lambda>g. \<lparr>bgg_user_name = bgg_user_name r, bgg_id = bgg_id r,
                       other = attributes g\<rparr>) matches)) top_n_df)"

text \<open>\<^verbatim>\<open>Series.dropna()\<close> on a column of cells: the lists of the cells that are not missing.\<close>

fun dropna :: "'l cell list \<Rightarrow> 'l list list" where
  "dropna [] = []"
| "dropna (Missing # cells) = dropna cells"
| "dropna (Labels ls # cells) = ls # dropna cells"

text \<open>
  \<^verbatim>\<open>np.hstack(arrays)\<close> on one-dimensional arrays concatenates them; on an empty sequence
  numpy raises \<^verbatim>\<open>ValueError\<close> (need at least one array to concatenate).
\<close>

definition np_hstack :: "'l list list \<Rightarrow> error + 'l list" where
  "np_hstack arrays = (case arrays of [] \<Rightarrow> Inl ValueError | _ \<Rightarrow> Inr (concat arrays))"

text \<open>
  \<^verbatim>\<open>np.unique(ar).size\<close>: the number of distinct values (the code uses only the size of the
  sorted array of distinct values).
\<close>

definition np_unique_size :: "'l list \<Rightarrow> nat" where
  "np_unique_size ar = length (remdups ar)"

text \<open>
  \<^verbatim>\<open>np.mean(a)\<close> of a list of integers: the sum divided by the length, as the rational number
  the float denotes; for the empty list numpy returns NaN, which is \<open>None\<close>.
\<close>

definition np_mean :: "nat list \<Rightarrow> rat option" where
  "np_mean a = (if a = [] then None else Some (of_nat (sum_list a) / of_nat (length a)))"

text \<open>
  \<^verbatim>\<open>
  def diversity(top_n_df, games_df, criterions=['category', 'mechanic']):
      games_df = games_df[['bgg_id'] + criterions].set_index('bgg_id')
      top_n_df = top_n_df[['bgg_user_name', 'bgg_id']]
      df = top_n_df.join(games_df, on='bgg_id', how='left')
      diversity_per_user = defaultdict(list)
      for _, user_df in df.groupby(by='bgg_user_name'):
          for criterion in criterions:
              user_criterion_diversity = np.unique(np.hstack(user_df[criterion].dropna())).size
              diversity_per_user[criterion].append(user_criterion_diversity)
      mean_diversity = {}
      for criterion in criterions:
          mean_diversity[criterion] = np.mean(diversity_per_user[criterion])
      return mean_diversity
  \<close>
  Selecting the columns \<^verbatim>\<open>['bgg_id'] + criterions\<close> raises \<^verbatim>\<open>KeyError\<close> when a criterion
  is not a column of the games.  The model follows the code for lists of criterions without
  repetition (with a repeated name pandas selects a frame instead of a column).
  \<open>criterion_cells\<close> is \<^verbatim>\<open>user_df[criterion].dropna()\<close>,
  \<open>user_criterion_diversity\<close> the first statement of the inner loop, \<open>criterions_loop\<close>
  the inner loop, \<open>users_loop\<close> the outer loop; the \<^verbatim>\<open>defaultdict(list)\<close> is a function
  from criterions to lists, \<open>[]\<close> at first, and the dictionary returned is a map.
\<close>

definition criterion_cells :: "('u, 'i, 'c \<Rightarrow> 'l cell) table \<Rightarrow> 'c \<Rightarrow> 'l list list" where
  "criterion_cells user_df criterion = dropna (map (\<lambda>r. other r criterion) user_df)"

definition user_criterion_diversity ::
  "('u, 'i, 'c \<Rightarrow> 'l cell) table \<Rightarrow> 'c \<Rightarrow> error + nat" where
  "user_criterion_diversity user_df criterion =
     (case np_hstack (criterion_cells user_df criterion) of
        Inl e \<Rightarrow> Inl e
      | Inr labels \<Rightarrow> Inr (np_unique_size labels))"

fun criterions_loop ::
  "('u, 'i, 'c \<Rightarrow> 'l cell) table \<Rightarrow> 'c list \<Rightarrow> ('c \<Rightarrow> nat list) \<Rightarrow> error + ('c \<Rightarrow> nat list)" where
  "criterions_loop user_df [] diversity_per_user = Inr diversity_per_user"
| "criterions_loop user_df (criterion # criterions) diversity_per_user =
     (case user_criterion_diversity user_df criterion of
        Inl e \<Rightarrow> Inl e
      | Inr n \<Rightarrow>
          criterions_loop user_df criterions
            (diversity_per_user(criterion := diversity_per_user criterion @ [n])))"

fun users_loop ::
  "('u, 'i, 'c \<Rightarrow> 'l cell) table list \<Rightarrow> 'c list \<Rightarrow> ('c \<Rightarrow> nat list)
     \<Rightarrow> error + ('c \<Rightarrow> nat list)" where
  "users_loop [] criterions diversity_per_user = Inr diversity_per_user"
| "users_loop (user_df # grouped) criterions diversity_per_user =
     (case criterions_loop user_df criterions diversity_per_user of
        Inl e \<Rightarrow> Inl e
      | Inr diversity_per_user' \<Rightarrow> users_loop grouped criterions diversity_per_user')"

definition diversity ::
  "('u::linorder, 'i, 'r) table \<Rightarrow> ('i, 'c, 'l) games_table \<Rightarrow> 'c list
     \<Rightarrow> error + ('c \<rightharpoonup> rat option)" where
  "diversity top_n_df games_df criterions =
     (if \<not> (\<forall>c \<in> set criterions. c \<in> set (criterion_columns games_df)) then Inl KeyError
      else
        (let df = left_join top_n_df (game_rows games_df)
         in case users_loop (map snd (groupby df)) criterions (\<lambda>c. []) of
              Inl e \<Rightarrow> Inl e
            | Inr diversity_per_user \<Rightarrow>
                Inr (fold (\<lambda>criterion mean_diversity.
                             mean_diversity(criterion \<mapsto> np_mean (diversity_per_user criterion)))
                       criterions Map.empty)))"



text \<open>
  Tables for concrete runs: one user recommended two games, with the categories A, B and
  B, C; and the same recommendations with a table of games that has no row for them.
\<close>

definition top_n_example :: "(nat, int, unit) table" where
  "top_n_example =
     [\<lparr>bgg_user_name = Some 1, bgg_id = 10, other = ()\<rparr>,
      \<lparr>bgg_user_name = Some 1, bgg_id = 11, other = ()\<rparr>]"


definition no_games_example :: "(int, string, string) games_table" where
  "no_games_example = \<lparr>criterion_columns = [''category''], game_rows = []\<rparr>"

section \<open>Properties\<close>

subsection \<open>Facts about the library operations\<close>

lemma set_unique: "set (unique xs) = set xs"
  by (induction xs rule: unique.induct) auto

lemma distinct_unique: "distinct (unique xs)"
  by (induction xs rule: unique.induct) (auto simp: set_unique)

lemma length_unique: "length (unique xs) = card (set xs)"
  using distinct_card [OF distinct_unique, of xs] by (simp add: set_unique)

lemma mset_swap_list: "i < length xs \<Longrightarrow> j < length xs \<Longrightarrow> mset (swap i j xs) = mset xs"
  unfolding swap_def by (simp add: mset_swap)

lemma length_swap: "length (swap i j xs) = length xs"
  by (simp add: swap_def)

lemma mset_shuffle_from:
  "k < length xs \<Longrightarrow> mset (fst (shuffle_from ri k xs s)) = mset xs"
proof (induction k arbitrary: xs s)
  case 0
  then show ?case by simp
next
  case (Suc k)
  obtain r s' where draw: "ri s (Suc k) = (r, s')"
    by (cases "ri s (Suc k)")
  let ?j = "r mod (Suc k + 1)"
  have "?j < length xs"
  proof -
    have "?j < Suc k + 1" by (rule mod_less_divisor) simp
    with Suc.prems show ?thesis by linarith
  qed
  then have "mset (swap (Suc k) ?j xs) = mset xs"
    using Suc.prems by (simp add: mset_swap_list)
  moreover have "k < length (swap (Suc k) ?j xs)"
    using Suc.prems by (simp add: length_swap)
  ultimately show ?case
    using Suc.IH [of "swap (Suc k) ?j xs" s'] draw by simp
qed

lemma mset_shuffle: "mset (fst (shuffle gen xs s)) = mset xs"
proof (cases xs)
  case Nil
  then show ?thesis by (simp add: shuffle_def)
next
  case (Cons x ys)
  then have "length xs - 1 < length xs" by simp
  then show ?thesis
    unfolding shuffle_def by (rule mset_shuffle_from)
qed

lemma set_shuffle: "set (fst (shuffle gen xs s)) = set xs"
  using mset_shuffle [of gen xs s] by (rule mset_eq_setD)

lemma distinct_shuffle: "distinct (fst (shuffle gen xs s)) = distinct xs"
  using mset_shuffle [of gen xs s] by (metis mset_eq_imp_distinct_iff)

lemma length_shuffle: "length (fst (shuffle gen xs s)) = length xs"
  using mset_shuffle [of gen xs s] by (rule mset_eq_length)

lemma slice_append: "slice_to k xs @ slice_from k xs = xs"
  by (simp add: slice_to_def slice_from_def)

lemma set_slices: "set (slice_to k xs) \<union> set (slice_from k xs) = set xs"
  using slice_append [of k xs] by (metis set_append)

lemma disjoint_slices: "distinct xs \<Longrightarrow> set (slice_to k xs) \<inter> set (slice_from k xs) = {}"
  using slice_append [of k xs] by (metis distinct_append)

lemma set_shuffled_users:
  "set (fst (shuffled_users gen g ratings_df seed)) = bgg_user_name ` set ratings_df"
  by (simp add: shuffled_users_def set_shuffle set_unique)

lemma distinct_shuffled_users: "distinct (fst (shuffled_users gen g ratings_df seed))"
  by (simp add: shuffled_users_def distinct_shuffle distinct_unique)

lemma mset_filter_split:
  assumes "\<And>x. x \<in> set xs \<Longrightarrow> Q x \<longleftrightarrow> \<not> P x"
  shows "mset (filter P xs) + mset (filter Q xs) = mset xs"
  using assms by (induction xs) auto

subsection \<open>Facts about the floating-point product\<close>

lemma py_round_bounds:
  assumes "0 \<le> x" and "x \<le> of_int n"
  shows "0 \<le> py_round x" and "py_round x \<le> n"
proof -
  have f0: "0 \<le> \<lfloor>x\<rfloor>" using assms(1) by simp
  have fn: "\<lfloor>x\<rfloor> \<le> n" using assms(2) by (simp add: floor_le_iff le_floor_iff floor_mono)
  show "0 \<le> py_round x"
    using f0 by (simp add: py_round_def Let_def)
  show "py_round x \<le> n"
  proof (cases "\<lfloor>x\<rfloor> = n")
    case True
    then have "of_int n \<le> x" using of_int_floor_le [of x] by simp
    then have "x - of_int \<lfloor>x\<rfloor> = 0" using assms(2) True by simp
    then show ?thesis using True by (simp add: py_round_def Let_def)
  next
    case False
    then have "\<lfloor>x\<rfloor> + 1 \<le> n" using fn by simp
    then show ?thesis by (simp add: py_round_def Let_def)
  qed
qed

lemma py_round_of_int: "py_round (of_int m) = m"
  by (simp add: py_round_def)

lemma exponent_le:
  assumes "0 < x" and "x < 2 ^ 53"
  shows "exponent x \<le> 52"
proof (cases "1 \<le> x")
  case True
  have "\<lfloor>x\<rfloor> < 2 ^ 53"
    using assms(2) by (simp add: floor_less_iff)
  then have "bitlen \<lfloor>x\<rfloor> \<le> 53"
    by (simp add: bitlen_le_iff_power)
  then show ?thesis
    using True by (simp add: exponent_def)
next
  case False
  then show ?thesis
    using bitlen_nonneg [of "\<lceil>1 / x\<rceil> - 1"] by (simp add: exponent_def)
qed

lemma to_double_scaled:
  assumes "0 < x" and "x < 2 ^ 53"
  shows "\<exists>k. to_double x = of_int (py_round (x * 2 ^ k)) / 2 ^ k"
proof -
  define k where "k = nat (52 - exponent x)"
  have "exponent x - 52 = - int k"
    using exponent_le [OF assms] by (simp add: k_def)
  then have "(2::rat) powi (exponent x - 52) = 1 / 2 ^ k"
    by (simp add: power_int_minus_divide)
  then have "to_double x = of_int (py_round (x * 2 ^ k)) / 2 ^ k"
    using assms(1) by (simp add: to_double_def Let_def)
  then show ?thesis ..
qed

lemma to_double_nonneg: "0 \<le> x \<Longrightarrow> 0 \<le> to_double x"
proof -
  assume x: "0 \<le> x"
  have "0 \<le> py_round y" if "0 \<le> y" for y
    using that by (simp add: py_round_def Let_def)
  then have "0 \<le> py_round (x / 2 powi (exponent \<bar>x\<bar> - 52))"
    using x by simp
  then show ?thesis
    by (simp add: to_double_def Let_def)
qed

lemma to_double_le_nat:
  assumes "0 \<le> x" and "x \<le> of_nat n" and "n < 2 ^ 53"
  shows "to_double x \<le> of_nat n"
proof (cases "x = 0")
  case True
  then show ?thesis by (simp add: to_double_def)
next
  case False
  then have pos: "0 < x" using assms(1) by simp
  have "(of_nat n :: rat) < of_nat (2 ^ 53)"
    using assms(3) by (simp only: of_nat_less_iff)
  then have "x < 2 ^ 53" using assms(2) by simp
  from to_double_scaled [OF pos this]
  obtain k where k: "to_double x = of_int (py_round (x * 2 ^ k)) / 2 ^ k" ..
  have "x * 2 ^ k \<le> of_nat n * 2 ^ k"
    using assms(2) by (simp add: mult_right_mono)
  then have "x * 2 ^ k \<le> of_int (int n * 2 ^ k)" by simp
  moreover have "0 \<le> x * 2 ^ k" using assms(1) by simp
  ultimately have "py_round (x * 2 ^ k) \<le> int n * 2 ^ k"
    by (rule py_round_bounds(2) [rotated])
  then have "(of_int (py_round (x * 2 ^ k)) :: rat) \<le> of_int (int n * 2 ^ k)"
    by (simp only: of_int_le_iff)
  then have "(of_int (py_round (x * 2 ^ k)) :: rat) / 2 ^ k \<le> of_nat n"
    by (simp add: divide_le_eq)
  then show ?thesis by (simp only: k)
qed

lemma to_double_of_nat:
  assumes "n < 2 ^ 53"
  shows "to_double (of_nat n) = of_nat n"
proof (cases "n = 0")
  case True
  then show ?thesis by (simp add: to_double_def)
next
  case False
  then have pos: "(0::rat) < of_nat n" by simp
  have "(of_nat n :: rat) < of_nat (2 ^ 53)"
    using assms by (simp only: of_nat_less_iff)
  then have "(of_nat n :: rat) < 2 ^ 53" by simp
  from to_double_scaled [OF pos this]
  obtain k where k: "to_double (of_nat n) = of_int (py_round (of_nat n * 2 ^ k)) / 2 ^ k" ..
  have "(of_nat n :: rat) * 2 ^ k = of_int (int n * 2 ^ k)" by simp
  then have "py_round (of_nat n * 2 ^ k) = int n * 2 ^ k"
    by (simp only: py_round_of_int)
  then show ?thesis by (simp add: k)
qed

lemma float_mul_nonneg: "0 \<le> x \<Longrightarrow> 0 \<le> float_mul x n"
  by (simp add: float_mul_def to_double_nonneg)

lemma float_mul_le:
  assumes "0 \<le> x" and "x \<le> 1" and "n < 2 ^ 53"
  shows "float_mul x n \<le> of_nat n"
proof -
  have x0: "0 \<le> to_double x" using assms(1) by (rule to_double_nonneg)
  have "to_double x \<le> of_nat 1"
    using assms(1,2) by (intro to_double_le_nat) simp_all
  then have x1: "to_double x \<le> 1" by simp
  have "to_double x * of_nat n \<le> 1 * of_nat n"
    using x1 by (intro mult_right_mono) simp_all
  then have "to_double x * of_nat n \<le> of_nat n" by simp
  moreover have "0 \<le> to_double x * of_nat n" using x0 by simp
  ultimately have "to_double (to_double x * of_nat n) \<le> of_nat n"
    using assms(3) by (intro to_double_le_nat)
  then show ?thesis
    by (simp add: float_mul_def to_double_of_nat [OF assms(3)])
qed

lemma float_mul_one: "to_double x = x \<Longrightarrow> float_mul x 1 = x"
proof -
  assume x: "to_double x = x"
  have "to_double (of_nat 1) = of_nat 1"
    by (rule to_double_of_nat) simp
  then show ?thesis
    using x by (simp add: float_mul_def)
qed

lemma float_mul_0: "float_mul x 0 = 0"
  by (simp add: float_mul_def to_double_def)

lemma float_mul_examples:
  "to_double (7 / 10) = 3152519739159347 / 4503599627370496"
  "py_int (float_mul (7 / 10) 10) = 7"
  "py_int (float_mul (7 / 10) 90) = 62"
  "py_round (float_mul (7 / 10) 5) = 4"
  "py_round (float_mul (7 / 10) 45) = 31"
  by code_simp+

subsection \<open>split\_ratings\_dataset\<close>

lemma split_ratings_dataset_eq:
  "split_ratings_dataset gen g R seed fraction =
     (let users = fst (shuffled_users gen g R seed);
          k = py_int (float_mul fraction (length users))
      in ((filter (\<lambda>r. bgg_user_name r \<in> set (slice_to k users)) R,
           filter (\<lambda>r. bgg_user_name r \<in> set (slice_from k users)) R),
          snd (shuffled_users gen g R seed)))"
  by (simp add: split_ratings_dataset_def Let_def split_def)

lemma users_of_filter:
  "A \<subseteq> bgg_user_name ` set R \<Longrightarrow> bgg_user_name ` set (filter (\<lambda>r. bgg_user_name r \<in> A) R) = A"
  by auto





lemma split_ratings_dataset_example:
  "split_ratings_dataset counter_generator 0 ratings_example (Some 5) (7 / 10) =
     (([\<lparr>bgg_user_name = None, bgg_id = 11, other = 9\<rparr>,
        \<lparr>bgg_user_name = Some 3, bgg_id = 12, other = 6\<rparr>],
       [\<lparr>bgg_user_name = Some 1, bgg_id = 10, other = 7\<rparr>,
        \<lparr>bgg_user_name = Some 2, bgg_id = 10, other = 8\<rparr>,
        \<lparr>bgg_user_name = Some 1, bgg_id = 11, other = 9\<rparr>]), 8)"
  by code_simp


text \<open>
  Claim C1.  For every ratings table and every fraction (in particular every fraction
  strictly between 0 and 1), \<open>split_ratings_dataset\<close> returns a training table and a test
  table such that no user has rows in both, every user of the input has rows in one of them,
  and the rows of the two tables together are the rows of the input, each as often as in the
  input.  Rows are passed on whole, so every column is kept.
\<close>

theorem split_ratings_dataset_partition:
  fixes R :: "('u, 'i, 'r) table"
  shows "case split_ratings_dataset gen g R seed fraction of
          ((train, test), g') \<Rightarrow>
            bgg_user_name ` set train \<inter> bgg_user_name ` set test = {}
          \<and> bgg_user_name ` set train \<union> bgg_user_name ` set test = bgg_user_name ` set R
          \<and> mset train + mset test = mset R"
proof -
  define users where "users = fst (shuffled_users gen g R seed)"
  define k where "k = py_int (float_mul fraction (length users))"
  define train where "train = filter (\<lambda>r. bgg_user_name r \<in> set (slice_to k users)) R"
  define test where "test = filter (\<lambda>r. bgg_user_name r \<in> set (slice_from k users)) R"
  have run: "split_ratings_dataset gen g R seed fraction =
      ((train, test), snd (shuffled_users gen g R seed))"
    by (simp add: split_ratings_dataset_eq Let_def users_def k_def train_def test_def)
  have all: "set users = bgg_user_name ` set R"
    by (simp add: users_def set_shuffled_users)
  have dist: "distinct users"
    by (simp add: users_def distinct_shuffled_users)
  have un: "set (slice_to k users) \<union> set (slice_from k users) = set users"
    by (rule set_slices)
  have dj: "set (slice_to k users) \<inter> set (slice_from k users) = {}"
    using dist by (rule disjoint_slices)
  have tr: "bgg_user_name ` set train = set (slice_to k users)"
    unfolding train_def using un all by (intro users_of_filter) blast
  have te: "bgg_user_name ` set test = set (slice_from k users)"
    unfolding test_def using un all by (intro users_of_filter) blast
  have "mset train + mset test = mset R"
    unfolding train_def test_def
  proof (rule mset_filter_split)
    fix r assume "r \<in> set R"
    then have "bgg_user_name r \<in> set users" using all by blast
    then show "bgg_user_name r \<in> set (slice_from k users) \<longleftrightarrow>
               \<not> bgg_user_name r \<in> set (slice_to k users)"
      using un dj by blast
  qed
  then show ?thesis
    using tr te un dj all by (simp add: run)
qed

theorem split_ratings_dataset_partition_witness:
  "case split_ratings_dataset counter_generator 0 ratings_example (Some 5) (7 / 10) of
     ((train, test), g') \<Rightarrow>
       train = [\<lparr>bgg_user_name = None, bgg_id = 11, other = 9\<rparr>,
                \<lparr>bgg_user_name = Some 3, bgg_id = 12, other = 6\<rparr>]
     \<and> test = [\<lparr>bgg_user_name = Some 1, bgg_id = 10, other = 7\<rparr>,
               \<lparr>bgg_user_name = Some 2, bgg_id = 10, other = 8\<rparr>,
               \<lparr>bgg_user_name = Some 1, bgg_id = 11, other = 9\<rparr>]
     \<and> bgg_user_name ` set train \<inter> bgg_user_name ` set test = {}
     \<and> bgg_user_name ` set train \<union> bgg_user_name ` set test = bgg_user_name ` set ratings_example
     \<and> mset train + mset test = mset ratings_example"
  using split_ratings_dataset_partition
    [where gen = counter_generator and g = 0 and R = ratings_example and seed = "Some 5"
       and fraction = "7 / 10"]
  unfolding split_ratings_dataset_example by simp









subsection \<open>split\_testing\_set\<close>

lemma permutation_props:
  "mset (fst (permutation gen n s)) = mset [0..<n]"
  "set (fst (permutation gen n s)) = {0..<n}"
  "distinct (fst (permutation gen n s))"
  "length (fst (permutation gen n s)) = n"
  by (simp_all add: permutation_def mset_shuffle set_shuffle distinct_shuffle length_shuffle)

lemma mset_take_setdiff:
  assumes "distinct p" and "set p = {0..<n}"
  shows "mset (take k p) + mset (filter (\<lambda>i. i \<notin> set (take k p)) [0..<n]) = mset [0..<n]"
proof -
  have d: "distinct (take k p)" using assms(1) by simp
  have sub: "set (take k p) \<subseteq> {0..<n}" using assms(2) set_take_subset by fastforce
  have eq: "set (take k p) = set (filter (\<lambda>i. i \<in> set (take k p)) [0..<n])"
    using sub by auto
  have "distinct (filter (\<lambda>i. i \<in> set (take k p)) [0..<n])"
    by simp
  with d eq have "mset (take k p) = mset (filter (\<lambda>i. i \<in> set (take k p)) [0..<n])"
    using set_eq_iff_mset_eq_distinct by blast
  moreover have "mset (filter (\<lambda>i. i \<in> set (take k p)) [0..<n])
      + mset (filter (\<lambda>i. i \<notin> set (take k p)) [0..<n]) = mset [0..<n]"
    by (rule mset_filter_split) simp
  ultimately show ?thesis by simp
qed

lemma split_group_returns:
  assumes "0 \<le> fraction" and "fraction \<le> 1" and "length df < 2 ^ 53"
  shows "\<exists>known unknown s'.
           split_group gen fraction df s = Inr ((known, unknown), s')
         \<and> mset known + mset unknown = mset df
         \<and> length known = nat (py_round (float_mul fraction (length df)))"
proof -
  define n where "n = length df"
  define k where "k = py_round (float_mul fraction n)"
  define p where "p = fst (permutation gen n s)"
  define s' where "s' = snd (permutation gen n s)"
  define ki where "ki = take (nat k) p"
  define ui where "ui = filter (\<lambda>i. i \<notin> set ki) [0..<n]"
  have x0: "0 \<le> float_mul fraction n"
    using assms(1) by (rule float_mul_nonneg)
  have "float_mul fraction n \<le> of_nat n"
    using assms unfolding n_def by (rule float_mul_le)
  then have xn: "float_mul fraction n \<le> of_int (int n)" by simp
  have k0: "0 \<le> k" and kn: "k \<le> int n"
    using py_round_bounds [OF x0 xn] by (simp_all add: k_def)
  have p: "distinct p" "set p = {0..<n}" "length p = n"
    by (simp_all add: p_def permutation_props)
  have ch: "choice gen n k s = Inr (ki, s')"
    using k0 kn by (auto simp: choice_def split_def Let_def p_def s'_def ki_def)
  have ki_lt: "\<forall>i \<in> set ki. i < n"
    using p(2) set_take_subset [of "nat k" p] by (auto simp: ki_def)
  have il1: "iloc df ki = Inr (map (\<lambda>i. df ! i) ki)"
    using ki_lt by (simp add: iloc_def n_def)
  have sd: "setdiff1d [0..<n] ki = ui"
    by (simp add: setdiff1d_def ui_def distinct_remdups_id)
  have il2: "iloc df ui = Inr (map (\<lambda>i. df ! i) ui)"
    by (simp add: iloc_def n_def ui_def)
  have run: "split_group gen fraction df s =
      Inr ((map (\<lambda>i. df ! i) ki, map (\<lambda>i. df ! i) ui), s')"
    using ch il1 il2 sd by (simp add: split_group_def Let_def n_def [symmetric] k_def [symmetric])
  have "mset ki + mset ui = mset [0..<n]"
    unfolding ki_def ui_def using p(1,2) by (rule mset_take_setdiff)
  then have "image_mset (\<lambda>i. df ! i) (mset ki + mset ui) = image_mset (\<lambda>i. df ! i) (mset [0..<n])"
    by simp
  also have "\<dots> = mset (map (\<lambda>i. df ! i) [0..<length df])" by (simp add: n_def)
  also have "\<dots> = mset df" by (simp only: map_nth)
  finally have part: "mset (map (\<lambda>i. df ! i) ki) + mset (map (\<lambda>i. df ! i) ui) = mset df"
    by simp
  have "length (map (\<lambda>i. df ! i) ki) = nat k"
    using kn k0 p(3) by (simp add: ki_def)
  then show ?thesis
    using run part unfolding k_def n_def by blast
qed

lemma split_groups_returns:
  assumes "0 \<le> fraction" and "fraction \<le> 1" and "\<forall>df \<in> set dfs. length df < 2 ^ 53"
  shows "\<exists>res s'.
           split_groups gen fraction dfs test_known test_unknown s =
             Inr ((test_known @ map fst res, test_unknown @ map snd res), s')
         \<and> list_all2 (\<lambda>df (known, unknown).
               mset known + mset unknown = mset df
             \<and> length known = nat (py_round (float_mul fraction (length df)))) dfs res"
  using assms(3)
proof (induction dfs arbitrary: test_known test_unknown s)
  case Nil
  show ?case by (rule exI [of _ "[]"]) simp
next
  case (Cons df dfs)
  have small: "length df < 2 ^ 53" and rest: "\<forall>df \<in> set dfs. length df < 2 ^ 53"
    using Cons.prems by simp_all
  obtain known unknown s1 where g:
    "split_group gen fraction df s = Inr ((known, unknown), s1)"
    "mset known + mset unknown = mset df"
    "length known = nat (py_round (float_mul fraction (length df)))"
    using split_group_returns [OF assms(1,2) small, of gen s] by blast
  obtain res s' where r:
    "split_groups gen fraction dfs (test_known @ [known]) (test_unknown @ [unknown]) s1 =
       Inr (((test_known @ [known]) @ map fst res, (test_unknown @ [unknown]) @ map snd res), s')"
    "list_all2 (\<lambda>df (known, unknown).
               mset known + mset unknown = mset df
             \<and> length known = nat (py_round (float_mul fraction (length df)))) dfs res"
    using Cons.IH [OF rest, of "test_known @ [known]" "test_unknown @ [unknown]" s1] by blast
  show ?case
    by (rule exI [of _ "(known, unknown) # res"], rule exI [of _ s'])
       (use g r in simp)
qed

lemma set_map_filter_users:
  "set (List.map_filter bgg_user_name T) = {u. \<exists>r \<in> set T. bgg_user_name r = Some u}"
  by (force simp: map_filter_def)

lemma set_group_keys:
  "set (sort (remdups (List.map_filter bgg_user_name T))) = {u. \<exists>r \<in> set T. bgg_user_name r = Some u}"
  by (force simp: map_filter_def)

lemma groupby_user_rows:
  "map snd (groupby T) = map (\<lambda>u. user_rows u T) (sort (remdups (List.map_filter bgg_user_name T)))"
  by (simp add: groupby_def user_rows_def comp_def)

lemma concat_if_distinct:
  "distinct ks \<Longrightarrow> concat (map (\<lambda>k. if k = u then xs else []) ks) = (if u \<in> set ks then xs else [])"
  by (induction ks) auto

lemma user_rows_groups:
  "user_rows u (concat (map snd (groupby T))) = user_rows u T"
proof -
  let ?ks = "sort (remdups (List.map_filter bgg_user_name T))"
  have "user_rows u (concat (map snd (groupby T))) =
      concat (map (\<lambda>k. user_rows u (user_rows k T)) ?ks)"
    by (simp add: groupby_user_rows user_rows_def filter_concat comp_def)
  also have "\<dots> = concat (map (\<lambda>k. if k = u then user_rows u T else []) ?ks)"
    by (rule arg_cong [where f = concat], rule map_cong) (auto simp: user_rows_def)
  also have "\<dots> = (if u \<in> set ?ks then user_rows u T else [])"
    by (rule concat_if_distinct) simp
  also have "\<dots> = user_rows u T"
  proof (cases "u \<in> set ?ks")
    case True
    then show ?thesis by simp
  next
    case False
    then have "\<forall>r \<in> set T. bgg_user_name r \<noteq> Some u"
      unfolding set_group_keys by blast
    then have "user_rows u T = []"
      by (simp add: user_rows_def filter_empty_conv)
    then show ?thesis by simp
  qed
  finally show ?thesis .
qed

lemma rows_of_groups:
  "r \<in> set (concat (map snd (groupby T))) \<Longrightarrow> \<exists>u. bgg_user_name r = Some u"
  by (auto simp: groupby_def)

lemma split_parts_mset:
  assumes "list_all2 (\<lambda>df (known, unknown). mset known + mset unknown = mset df \<and> Q df known) dfs res"
  shows "mset (filter P (concat (map fst res))) + mset (filter P (concat (map snd res)))
       = mset (filter P (concat dfs))"
  using assms
proof (induction dfs res rule: list_all2_induct)
  case Nil
  then show ?case by simp
next
  case (Cons df dfs kn res)
  obtain known unknown where kn: "kn = (known, unknown)" by (cases kn)
  have "mset known + mset unknown = mset df" using Cons.hyps(1) kn by simp
  then have "filter_mset P (mset known + mset unknown) = filter_mset P (mset df)" by simp
  then show ?case
    using Cons.IH by (simp add: kn ac_simps)
qed

lemma split_parts_known_length:
  assumes "list_all2 (\<lambda>df (known, unknown).
              mset known + mset unknown = mset df \<and> length known = k df) dfs res"
    and "\<forall>df \<in> set dfs. (\<forall>r \<in> set df. P r) \<or> (\<forall>r \<in> set df. \<not> P r)"
  shows "length (filter P (concat (map fst res))) =
           sum_list (map (\<lambda>df. if \<forall>r \<in> set df. P r then k df else 0) dfs)"
  using assms
proof (induction dfs res rule: list_all2_induct)
  case Nil
  then show ?case by simp
next
  case (Cons df dfs kn res)
  obtain known unknown where kn: "kn = (known, unknown)" by (cases kn)
  have part: "mset known + mset unknown = mset df" and len: "length known = k df"
    using Cons.hyps(1) kn by simp_all
  have sub: "set known \<subseteq> set df"
    using part by (metis mset_eq_setD set_append mset_append Un_upper1)
  have here: "length (filter P known) = (if \<forall>r \<in> set df. P r then k df else 0)"
  proof (cases "\<forall>r \<in> set df. P r")
    case True
    then have "filter P known = known" using sub by (auto simp: filter_id_conv)
    then show ?thesis using True len by simp
  next
    case False
    then have "\<forall>r \<in> set df. \<not> P r" using Cons.prems by auto
    then have "filter P known = []" using sub by (auto simp: filter_empty_conv)
    then have "length (filter P known) = 0" by simp
    then show ?thesis using False by (simp only: if_False)
  qed
  have "length (filter P (concat (map fst res))) =
      sum_list (map (\<lambda>df. if \<forall>r \<in> set df. P r then k df else 0) dfs)"
    using Cons.IH Cons.prems by simp
  then show ?case
    using here by (simp add: kn)
qed

lemma sum_list_if_distinct:
  "distinct ks \<Longrightarrow>
     sum_list (map (\<lambda>k. if k = u then (c::nat) else 0) ks) = (if u \<in> set ks then c else 0)"
  by (induction ks) auto

lemma sum_over_groups:
  assumes "k [] = (0::nat)"
  shows "sum_list (map (\<lambda>df. if \<forall>r \<in> set df. bgg_user_name r = Some u then k df else 0)
            (map snd (groupby T))) = k (user_rows u T)"
proof -
  let ?ks = "sort (remdups (List.map_filter bgg_user_name T))"
  have key: "(\<forall>r \<in> set (user_rows key T). bgg_user_name r = Some u) \<longleftrightarrow> key = u"
    if key_in: "key \<in> set ?ks" for key
  proof -
    obtain r where "r \<in> set T" "bgg_user_name r = Some key"
      using key_in by (auto simp: set_map_filter_users)
    then have "r \<in> set (user_rows key T)" by (simp add: user_rows_def)
    then show ?thesis by (auto simp: user_rows_def)
  qed
  have "sum_list (map (\<lambda>df. if \<forall>r \<in> set df. bgg_user_name r = Some u then k df else 0)
            (map snd (groupby T)))
      = sum_list (map (\<lambda>key. if key = u then k (user_rows u T) else 0) ?ks)"
    unfolding groupby_user_rows map_map comp_def
    by (rule arg_cong [where f = sum_list], rule map_cong) (auto simp: key)
  also have "\<dots> = (if u \<in> set ?ks then k (user_rows u T) else 0)"
    by (rule sum_list_if_distinct) simp
  also have "\<dots> = k (user_rows u T)"
  proof (cases "u \<in> set ?ks")
    case True
    then show ?thesis by simp
  next
    case False
    then have "\<forall>r \<in> set T. bgg_user_name r \<noteq> Some u"
      unfolding set_group_keys by blast
    then have "user_rows u T = []"
      by (simp add: user_rows_def filter_empty_conv)
    then show ?thesis using assms by simp
  qed
  finally show ?thesis .
qed

lemma py_round_0: "py_round 0 = 0"
  by (simp add: py_round_def)

lemma count_groups_le:
  "count (mset (concat (map snd (groupby T)))) r \<le> count (mset T) r"
proof (cases "bgg_user_name r")
  case None
  then have "r \<notin> set (concat (map snd (groupby T)))"
    using rows_of_groups [of r T] by auto
  then show ?thesis by (metis count_mset_0_iff zero_le)
next
  case (Some u)
  then have "count (mset (concat (map snd (groupby T)))) r =
      count (mset (user_rows u (concat (map snd (groupby T))))) r"
    by (simp add: user_rows_def)
  also have "\<dots> = count (mset (user_rows u T)) r"
    by (simp only: user_rows_groups)
  also have "\<dots> = count (mset T) r"
    using Some by (simp add: user_rows_def)
  finally show ?thesis by simp
qed

lemma split_testing_set_returns:
  fixes T :: "('u::linorder, 'i, 'r) table"
  assumes "0 \<le> fraction" and "fraction \<le> 1" and "\<exists>r \<in> set T. bgg_user_name r \<noteq> None"
    and "length T < 2 ^ 53"
  shows "\<exists>known heldout g'.
           split_testing_set gen g T seed fraction = Inr ((known, heldout), g')
         \<and> (\<forall>u. mset (user_rows u known) + mset (user_rows u heldout) = mset (user_rows u T))
         \<and> (\<forall>r. count (mset known) r + count (mset heldout) r \<le> count (mset T) r)
         \<and> (\<forall>u. length (user_rows u known) =
                  nat (py_round (float_mul fraction (length (user_rows u T)))))"
proof -
  let ?k = "\<lambda>df :: ('u, 'i, 'r) table. nat (py_round (float_mul fraction (length df)))"
  let ?groups = "map snd (groupby T)"
  have small: "\<forall>df \<in> set ?groups. length df < 2 ^ 53"
  proof
    fix df assume "df \<in> set ?groups"
    then obtain u where "df = filter (\<lambda>r. bgg_user_name r = Some u) T"
      by (auto simp: groupby_def)
    then have "length df \<le> length T" by simp
    then show "length df < 2 ^ 53" using assms(4) by simp
  qed
  have "\<exists>res g'.
      split_groups gen fraction ?groups [] [] (seed_generator gen g seed) =
        Inr ((map fst res, map snd res), g')
      \<and> list_all2 (\<lambda>df (known, unknown).
               mset known + mset unknown = mset df \<and> length known = ?k df) ?groups res"
    using split_groups_returns
      [OF assms(1,2) small, of gen "[]" "[]" "seed_generator gen g seed"] by simp
  then obtain res g' where run:
    "split_groups gen fraction ?groups [] [] (seed_generator gen g seed) =
       Inr ((map fst res, map snd res), g')"
    and rel: "list_all2 (\<lambda>df (known, unknown).
               mset known + mset unknown = mset df \<and> length known = ?k df) ?groups res"
    by blast
  obtain r u where "r \<in> set T" "bgg_user_name r = Some u"
    using assms(3) by auto
  then have "u \<in> set (sort (remdups (List.map_filter bgg_user_name T)))"
    unfolding set_group_keys by blast
  then have "sort (remdups (List.map_filter bgg_user_name T)) \<noteq> []"
    by (metis empty_iff list.set(1))
  then have "?groups \<noteq> []"
    unfolding groupby_user_rows by (simp only: map_is_Nil_conv not_False_eq_True)
  then have "res \<noteq> []"
    using rel by auto
  then have cc: "pd_concat (map fst res) = Inr (concat (map fst res))"
    "pd_concat (map snd res) = Inr (concat (map snd res))"
    by (cases res; simp add: pd_concat_def)+
  have out: "split_testing_set gen g T seed fraction =
      Inr ((concat (map fst res), concat (map snd res)), g')"
    using run cc by (simp add: split_testing_set_def Let_def)
  have part: "mset (filter P (concat (map fst res))) + mset (filter P (concat (map snd res))) =
      mset (filter P (concat ?groups))" for P
    using rel by (rule split_parts_mset)
  have homog: "\<forall>df \<in> set ?groups.
      (\<forall>r \<in> set df. bgg_user_name r = Some u) \<or> (\<forall>r \<in> set df. \<not> bgg_user_name r = Some u)" for u
    by (auto simp: groupby_def)
  have len: "length (user_rows u (concat (map fst res))) = ?k (user_rows u T)" for u
  proof -
    have "length (filter (\<lambda>r. bgg_user_name r = Some u) (concat (map fst res))) =
        sum_list (map (\<lambda>df. if \<forall>r \<in> set df. bgg_user_name r = Some u then ?k df else 0) ?groups)"
      using rel homog by (rule split_parts_known_length)
    also have "\<dots> = ?k (user_rows u T)"
      by (rule sum_over_groups) (simp add: py_round_0 float_mul_0)
    finally show ?thesis by (simp add: user_rows_def)
  qed
  have users: "mset (user_rows u (concat (map fst res))) + mset (user_rows u (concat (map snd res)))
      = mset (user_rows u T)" for u
  proof -
    have "mset (user_rows u (concat (map fst res))) + mset (user_rows u (concat (map snd res)))
        = mset (user_rows u (concat ?groups))"
      unfolding user_rows_def by (rule part)
    then show ?thesis by (simp only: user_rows_groups)
  qed
  have "mset (concat (map fst res)) + mset (concat (map snd res)) = mset (concat ?groups)"
    using part [of "\<lambda>x. True"] by simp
  then have "count (mset (concat (map fst res))) r + count (mset (concat (map snd res))) r
      = count (mset (concat ?groups)) r" for r
    by (metis count_union)
  then have cnt: "count (mset (concat (map fst res))) r + count (mset (concat (map snd res))) r
      \<le> count (mset T) r" for r
    using count_groups_le [of T r] by simp
  show ?thesis
    using out users cnt len by blast
qed

lemma py_round_fraction_of_one:
  "1 / 2 < x \<Longrightarrow> x \<le> 1 \<Longrightarrow> py_round x = 1"
  "py_round (1 / 2) = 0"
proof -
  show "py_round (1 / 2) = 0"
    by code_simp
  assume x: "1 / 2 < x" "x \<le> 1"
  show "py_round x = 1"
  proof (cases "x = 1")
    case True
    then show ?thesis by (simp add: py_round_def)
  next
    case False
    then have "\<lfloor>x\<rfloor> = 0" using x by (simp add: floor_eq_iff)
    then show ?thesis using x by (simp add: py_round_def)
  qed
qed

text \<open>
  Claim C2, amended.  For every table with at least one row that has a user name and with
  fewer than \<open>2 ^ 53\<close> rows (the counts that a float holds exactly), and every fraction
  between 0 and 1, \<open>split_testing_set\<close> returns a known and a held-out table such that, for
  every user, the user's rows in the known table together with the user's rows in the
  held-out table are exactly the user's rows in the input, each as often as there; and when
  the rows of the input are pairwise different, no row is in both outputs.
\<close>

theorem split_testing_set_partition:
  fixes T :: "('u::linorder, 'i, 'r) table"
  assumes "0 \<le> fraction" and "fraction \<le> 1" and "\<exists>r \<in> set T. bgg_user_name r \<noteq> None"
    and "length T < 2 ^ 53"
  shows "\<exists>known heldout g'.
           split_testing_set gen g T seed fraction = Inr ((known, heldout), g')
         \<and> (\<forall>u. mset (user_rows u known) + mset (user_rows u heldout) = mset (user_rows u T))
         \<and> (distinct T \<longrightarrow> set known \<inter> set heldout = {})"
proof -
  obtain known heldout g' where run:
      "split_testing_set gen g T seed fraction = Inr ((known, heldout), g')"
    and users: "\<And>u. mset (user_rows u known) + mset (user_rows u heldout) = mset (user_rows u T)"
    and cnt: "\<And>r. count (mset known) r + count (mset heldout) r \<le> count (mset T) r"
    using split_testing_set_returns [OF assms, of gen g seed] by blast
  have disj: "set known \<inter> set heldout = {}" if "distinct T"
  proof (rule ccontr)
    assume "set known \<inter> set heldout \<noteq> {}"
    then obtain r where "r \<in> set known" "r \<in> set heldout" by blast
    then have "1 \<le> count (mset known) r" "1 \<le> count (mset heldout) r"
      by (simp_all add: Suc_le_eq count_greater_zero_iff)
    moreover have "count (mset T) r \<le> 1"
      using that by (simp add: distinct_count_atmost_1)
    ultimately show False
      using cnt [of r] by linarith
  qed
  show ?thesis
    using run users disj by blast
qed

lemma singleton_mset_eq:
  "length xs = 1 \<Longrightarrow> mset ys = mset xs \<Longrightarrow> ys = xs"
  by (cases xs) auto

text \<open>
  Claim C5, amended.  For a fraction between 0 and 1 (and a table with a user name and fewer
  than \<open>2 ^ 53\<close> rows), the known table holds, for every user, exactly
  \<open>round (fraction * row_count)\<close> rows of the user, where the product is the floating-point
  product of the code and \<open>round\<close> rounds halves to the even neighbour.  A user with exactly
  one row has this row in the known table, and no held-out row, when the fraction is a float
  above one half; with the fraction one half exactly, \<open>round (1 / 2) = 0\<close> and the row is
  held out.
\<close>

theorem split_testing_set_known_size:
  fixes T :: "('u::linorder, 'i, 'r) table"
  assumes "0 \<le> fraction" and "fraction \<le> 1" and "\<exists>r \<in> set T. bgg_user_name r \<noteq> None"
    and "length T < 2 ^ 53"
  shows "\<exists>known heldout g'.
           split_testing_set gen g T seed fraction = Inr ((known, heldout), g')
         \<and> (\<forall>u. length (user_rows u known) =
                  nat (py_round (float_mul fraction (length (user_rows u T)))))
         \<and> (\<forall>u. to_double fraction = fraction \<and> 1 / 2 < fraction
                  \<and> length (user_rows u T) = 1 \<longrightarrow>
                  user_rows u known = user_rows u T \<and> user_rows u heldout = [])
         \<and> (\<forall>u. fraction = 1 / 2 \<and> length (user_rows u T) = 1 \<longrightarrow>
                  user_rows u known = [] \<and> user_rows u heldout = user_rows u T)"
proof -
  obtain known heldout g' where run:
      "split_testing_set gen g T seed fraction = Inr ((known, heldout), g')"
    and users: "\<And>u. mset (user_rows u known) + mset (user_rows u heldout) = mset (user_rows u T)"
    and len: "\<And>u. length (user_rows u known) =
                  nat (py_round (float_mul fraction (length (user_rows u T))))"
    using split_testing_set_returns [OF assms, of gen g seed] by blast
  have above: "user_rows u known = user_rows u T \<and> user_rows u heldout = []"
    if "to_double fraction = fraction" and "1 / 2 < fraction"
      and one: "length (user_rows u T) = 1" for u
  proof -
    have fm: "float_mul fraction 1 = fraction"
      using that(1) by (rule float_mul_one)
    have "py_round fraction = 1"
      using that(2) assms(2) by (rule py_round_fraction_of_one(1))
    then have "py_round (float_mul fraction (length (user_rows u T))) = 1"
      by (simp only: one fm)
    then have "length (user_rows u known) = 1"
      using len [of u] by simp
    moreover have "length (user_rows u known) + length (user_rows u heldout) = 1"
      using users [of u] one by (metis size_mset size_union)
    ultimately have "user_rows u heldout = []" by simp
    then show ?thesis
      using users [of u] one by (simp add: singleton_mset_eq)
  qed
  have half: "user_rows u known = [] \<and> user_rows u heldout = user_rows u T"
    if "fraction = 1 / 2" and one: "length (user_rows u T) = 1" for u
  proof -
    have "to_double (1 / 2) = 1 / 2"
      by code_simp
    then have "float_mul (1 / 2) 1 = 1 / 2"
      by (rule float_mul_one)
    then have "py_round (float_mul fraction (length (user_rows u T))) = 0"
      by (simp only: one that(1) py_round_fraction_of_one(2))
    then have "length (user_rows u known) = 0"
      using len [of u] by simp
    then have "user_rows u known = []" by simp
    then show ?thesis
      using users [of u] one by (simp add: singleton_mset_eq)
  qed
  show ?thesis
    using run len above half by blast
qed

lemma ratings_example_facts:
  "\<exists>r \<in> set ratings_example. bgg_user_name r \<noteq> None"
  "distinct ratings_example"
  "length (user_rows 1 ratings_example) = 2"
  "length (user_rows 2 ratings_example) = 1"
  "length ratings_example < 2 ^ 53"
  by (simp_all add: ratings_example_def user_rows_def)

theorem split_testing_set_partition_witness:
  "(0::rat) \<le> 1 / 2 \<and> (1 / 2 :: rat) \<le> 1
   \<and> (\<exists>r \<in> set ratings_example. bgg_user_name r \<noteq> None)
   \<and> length ratings_example < 2 ^ 53
   \<and> distinct ratings_example
   \<and> (\<exists>known heldout g'.
         split_testing_set counter_generator 0 ratings_example (Some 5) (1 / 2) =
           Inr ((known, heldout), g')
       \<and> (\<forall>u. mset (user_rows u known) + mset (user_rows u heldout) =
                mset (user_rows u ratings_example))
       \<and> set known \<inter> set heldout = {})"
proof -
  have h1: "(0::rat) \<le> 1 / 2" and h2: "(1 / 2 :: rat) \<le> 1" by simp_all
  show ?thesis
    using split_testing_set_partition
      [OF h1 h2 ratings_example_facts(1,5), of counter_generator 0 "Some 5"]
      h1 h2 ratings_example_facts(1,2,5)
    by blast
qed

text \<open>
  The claim as stated, for every fraction, fails: with the fraction 2 the sample is larger
  than the group and the draw raises \<^verbatim>\<open>ValueError\<close>.
\<close>

theorem split_testing_set_partition_counterexample:
  "ratings_example \<noteq> []
   \<and> split_testing_set counter_generator 0 ratings_example (Some 5) 2 = Inl ValueError"
  by code_simp

theorem split_testing_set_known_size_witness:
  "(0::rat) \<le> 3 / 4 \<and> (3 / 4 :: rat) \<le> 1
   \<and> (\<exists>r \<in> set ratings_example. bgg_user_name r \<noteq> None)
   \<and> length ratings_example < 2 ^ 53
   \<and> to_double (3 / 4) = 3 / 4 \<and> (1 / 2 :: rat) < 3 / 4
   \<and> length (user_rows 2 ratings_example) = 1
   \<and> (\<exists>known heldout g'.
         split_testing_set counter_generator 0 ratings_example (Some 5) (3 / 4) =
           Inr ((known, heldout), g')
       \<and> length (user_rows 1 known) = 2
       \<and> user_rows 2 known = user_rows 2 ratings_example
       \<and> user_rows 2 heldout = [])"
proof -
  have h1: "(0::rat) \<le> 3 / 4" and h2: "(3 / 4 :: rat) \<le> 1" and h3: "(1 / 2 :: rat) < 3 / 4"
    by simp_all
  have h4: "to_double (3 / 4) = 3 / 4"
    by code_simp
  have r: "nat (py_round (float_mul (3 / 4) 2)) = 2"
    by code_simp
  obtain known heldout g' where
    run: "split_testing_set counter_generator 0 ratings_example (Some 5) (3 / 4) =
           Inr ((known, heldout), g')"
    and len: "\<forall>u. length (user_rows u known) =
                  nat (py_round (float_mul (3 / 4) (length (user_rows u ratings_example))))"
    and one: "\<forall>u. to_double (3 / 4) = 3 / 4 \<and> (1 / 2 :: rat) < 3 / 4
                  \<and> length (user_rows u ratings_example) = 1 \<longrightarrow>
                  user_rows u known = user_rows u ratings_example \<and> user_rows u heldout = []"
    using split_testing_set_known_size
      [OF h1 h2 ratings_example_facts(1,5), of counter_generator 0 "Some 5"]
    by blast
  have "length (user_rows 1 known) = nat (py_round (float_mul (3 / 4) 2))"
    using len ratings_example_facts(3) by metis
  then have "length (user_rows 1 known) = 2"
    by (simp only: r)
  moreover have "user_rows 2 known = user_rows 2 ratings_example \<and> user_rows 2 heldout = []"
    using one h3 h4 ratings_example_facts(4) by blast
  ultimately show ?thesis
    using run h1 h2 h3 h4 ratings_example_facts(1,4,5) by blast
qed

text \<open>
  The claim as stated, for every fraction from one half on, fails at one half: the only row
  of the user is held out.
\<close>

theorem split_testing_set_known_size_counterexample:
  "length (user_rows 7 one_rating_example) = 1
   \<and> (1 / 2 :: rat) \<le> 1 / 2
   \<and> split_testing_set counter_generator 0 one_rating_example (Some 5) (1 / 2) =
       Inr (([], one_rating_example), 5)"
  by code_simp

lemma split_testing_set_example_half:
  "split_testing_set counter_generator g ratings_example (Some 5) (1 / 2) =
     Inr (([\<lparr>bgg_user_name = Some 1, bgg_id = 10, other = 7\<rparr>],
           [\<lparr>bgg_user_name = Some 1, bgg_id = 11, other = 9\<rparr>,
            \<lparr>bgg_user_name = Some 2, bgg_id = 10, other = 8\<rparr>,
            \<lparr>bgg_user_name = Some 3, bgg_id = 12, other = 6\<rparr>]), 6)"
  by code_simp

lemma unseeded_runs_may_differ:
  "fst (split_ratings_dataset counter_generator 0 ratings_example None (7 / 10)) \<noteq>
   fst (split_ratings_dataset counter_generator 1 ratings_example None (7 / 10))"
  by code_simp

text \<open>
  Claim C7.  With the same explicit seed, two runs of \<open>split_ratings_dataset\<close> on the same
  table give the same pair of tables, and so do two runs of \<open>split_testing_set\<close>, whatever
  the states \<open>g1\<close> and \<open>g2\<close> of the process-wide generator before the two runs.
\<close>

theorem seeded_runs_are_deterministic:
  fixes R :: "('u, 'i, 'r) table" and T :: "('v::linorder, 'j, 'q) table"
  shows "split_ratings_dataset gen g1 R (Some sd) fraction =
           split_ratings_dataset gen g2 R (Some sd) fraction
       \<and> split_testing_set gen g1 T (Some sd) fraction' =
           split_testing_set gen g2 T (Some sd) fraction'"
  by (simp add: split_ratings_dataset_def shuffled_users_def split_testing_set_def
      seed_generator_def)

theorem seeded_runs_are_deterministic_witness:
  "split_ratings_dataset counter_generator 0 ratings_example (Some 5) (7 / 10) =
     split_ratings_dataset counter_generator 3 ratings_example (Some 5) (7 / 10)
   \<and> split_testing_set counter_generator 0 ratings_example (Some 5) (1 / 2) =
       split_testing_set counter_generator 3 ratings_example (Some 5) (1 / 2)
   \<and> split_testing_set counter_generator 3 ratings_example (Some 5) (1 / 2) =
       Inr (([\<lparr>bgg_user_name = Some 1, bgg_id = 10, other = 7\<rparr>],
             [\<lparr>bgg_user_name = Some 1, bgg_id = 11, other = 9\<rparr>,
              \<lparr>bgg_user_name = Some 2, bgg_id = 10, other = 8\<rparr>,
              \<lparr>bgg_user_name = Some 3, bgg_id = 12, other = 6\<rparr>]), 6)"
  using seeded_runs_are_deterministic
    [where gen = counter_generator and ?g1.0 = 0 and ?g2.0 = 3 and R = ratings_example
       and T = ratings_example and sd = 5 and fraction = "7 / 10" and fraction' = "1 / 2"]
  by (simp add: split_testing_set_example_half)

text \<open>
  Claim C10.  On a table without rows there is no group, so \<open>split_testing_set\<close> does not
  return two empty tables: the concatenation of the empty list of groups raises
  \<^verbatim>\<open>ValueError\<close>.
\<close>

theorem split_testing_set_empty_raises:
  "split_testing_set gen g [] seed fraction = Inl ValueError"
  by (simp add: split_testing_set_def groupby_def pd_concat_def map_filter_simps)

theorem split_testing_set_empty_raises_witness:
  "split_testing_set counter_generator 0 ([] :: (nat, int, int) table) (Some 5) (4 / 5)
     = Inl ValueError"
  by (rule split_testing_set_empty_raises)

subsection \<open>coverage\<close>

text \<open>
  Claim C6.  For every recommendation table, \<open>coverage\<close> is the number of distinct item
  identifiers of the column \<^verbatim>\<open>bgg_id\<close>: it is the cardinality of the set of identifiers, so
  duplicates are collapsed, and two tables with the same rows in any order have the same
  coverage.  On a table with the items 1, 1, 2, 3 it is 3, and on the empty table it is 0.
\<close>

theorem coverage_counts_distinct_items:
  fixes top_n_df top_n_df' :: "('u, 'i, 'r) table"
    and r1 r2 r3 r4 :: "('u, int, 'r) row"
  shows "coverage top_n_df = card (bgg_id ` set top_n_df)
       \<and> (mset top_n_df = mset top_n_df' \<longrightarrow> coverage top_n_df = coverage top_n_df')
       \<and> (map bgg_id [r1, r2, r3, r4] = [1, 1, 2, 3] \<longrightarrow> coverage [r1, r2, r3, r4] = 3)
       \<and> coverage ([] :: ('u, 'i, 'r) table) = 0"
proof -
  have eq: "coverage t = card (bgg_id ` set t)" for t :: "('a, 'b, 'c) table"
    by (simp add: coverage_def length_unique)
  have "coverage top_n_df = coverage top_n_df'" if "mset top_n_df = mset top_n_df'"
    using mset_eq_setD [OF that] by (simp add: eq)
  moreover have "coverage [r1, r2, r3, r4] = 3" if "map bgg_id [r1, r2, r3, r4] = [1, 1, 2, 3]"
    using that by (simp add: coverage_def)
  moreover have "coverage ([] :: ('u, 'i, 'r) table) = 0"
    by (simp add: coverage_def)
  ultimately show ?thesis
    using eq by blast
qed

theorem coverage_counts_distinct_items_witness:
  "coverage [\<lparr>bgg_user_name = Some (1::nat), bgg_id = (1::int), other = ()\<rparr>,
             \<lparr>bgg_user_name = Some 2, bgg_id = 1, other = ()\<rparr>,
             \<lparr>bgg_user_name = Some 1, bgg_id = 2, other = ()\<rparr>,
             \<lparr>bgg_user_name = Some 3, bgg_id = 3, other = ()\<rparr>] = 3
   \<and> coverage [\<lparr>bgg_user_name = Some (3::nat), bgg_id = (3::int), other = ()\<rparr>,
               \<lparr>bgg_user_name = Some 1, bgg_id = 2, other = ()\<rparr>,
               \<lparr>bgg_user_name = Some 2, bgg_id = 1, other = ()\<rparr>,
               \<lparr>bgg_user_name = Some 1, bgg_id = 1, other = ()\<rparr>] = 3"
  using coverage_counts_distinct_items
    [of "[\<lparr>bgg_user_name = Some (1::nat), bgg_id = (1::int), other = ()\<rparr>,
          \<lparr>bgg_user_name = Some 2, bgg_id = 1, other = ()\<rparr>,
          \<lparr>bgg_user_name = Some 1, bgg_id = 2, other = ()\<rparr>,
          \<lparr>bgg_user_name = Some 3, bgg_id = 3, other = ()\<rparr>]"
        "[\<lparr>bgg_user_name = Some (3::nat), bgg_id = (3::int), other = ()\<rparr>,
          \<lparr>bgg_user_name = Some 1, bgg_id = 2, other = ()\<rparr>,
          \<lparr>bgg_user_name = Some 2, bgg_id = 1, other = ()\<rparr>,
          \<lparr>bgg_user_name = Some 1, bgg_id = 1, other = ()\<rparr>]"
        "\<lparr>bgg_user_name = Some (1::nat), bgg_id = (1::int), other = ()\<rparr>"
        "\<lparr>bgg_user_name = Some (2::nat), bgg_id = (1::int), other = ()\<rparr>"
        "\<lparr>bgg_user_name = Some (1::nat), bgg_id = (2::int), other = ()\<rparr>"
        "\<lparr>bgg_user_name = Some (3::nat), bgg_id = (3::int), other = ()\<rparr>"]
  by simp

subsection \<open>diversity\<close>

lemma user_criterion_diversity_eq:
  "user_criterion_diversity user_df c =
     (if criterion_cells user_df c = [] then Inl ValueError
      else Inr (np_unique_size (concat (criterion_cells user_df c))))"
  by (cases "criterion_cells user_df c")
     (simp_all add: user_criterion_diversity_def np_hstack_def)

lemma criterions_loop_raises:
  "\<exists>c \<in> set cs. criterion_cells user_df c = [] \<Longrightarrow>
     criterions_loop user_df cs d = Inl ValueError"
proof (induction cs arbitrary: d)
  case Nil
  then show ?case by simp
next
  case (Cons c cs)
  show ?case
  proof (cases "criterion_cells user_df c = []")
    case True
    then show ?thesis by (simp add: user_criterion_diversity_eq)
  next
    case False
    then have "\<exists>c \<in> set cs. criterion_cells user_df c = []"
      using Cons.prems by auto
    then show ?thesis
      using False Cons.IH by (simp add: user_criterion_diversity_eq)
  qed
qed




lemma criterions_loop_no_error:
  "\<forall>c \<in> set cs. criterion_cells user_df c \<noteq> [] \<Longrightarrow> \<exists>d'. criterions_loop user_df cs d = Inr d'"
  by (induction cs arbitrary: d) (simp_all add: user_criterion_diversity_eq)

lemma users_loop_raises_any:
  assumes "\<exists>user_df \<in> set grouped. \<exists>c \<in> set cs. criterion_cells user_df c = []"
  shows "users_loop grouped cs d = Inl ValueError"
  using assms
proof (induction grouped arbitrary: d)
  case Nil
  then show ?case by simp
next
  case (Cons user_df grouped)
  show ?case
  proof (cases "\<exists>c \<in> set cs. criterion_cells user_df c = []")
    case True
    then show ?thesis by (simp add: criterions_loop_raises)
  next
    case False
    then have "\<forall>c \<in> set cs. criterion_cells user_df c \<noteq> []"
      by simp
    from criterions_loop_no_error [OF this, of d]
    obtain d' where "criterions_loop user_df cs d = Inr d'"
      by blast
    moreover have "\<exists>user_df \<in> set grouped. \<exists>c \<in> set cs. criterion_cells user_df c = []"
      using False Cons.prems by auto
    ultimately show ?thesis
      using Cons.IH by simp
  qed
qed

lemma dropna_append: "dropna (xs @ ys) = dropna xs @ dropna ys"
  by (induction xs rule: dropna.induct) simp_all


lemma dropna_empty: "dropna cells = [] \<longleftrightarrow> (\<forall>x \<in> set cells. x = Missing)"
  by (induction cells rule: dropna.induct) simp_all

lemma criterion_cells_append:
  "criterion_cells (xs @ ys) c = criterion_cells xs c @ criterion_cells ys c"
  by (simp add: criterion_cells_def dropna_append)

lemma left_join_Cons:
  "left_join (r # T) games = left_join [r] games @ left_join T games"
  by (simp add: left_join_def)

lemma criterion_cells_left_join_row:
  "criterion_cells (left_join [r] games) c =
     dropna (map (\<lambda>g. attributes g c) (filter (\<lambda>g. game_id g = bgg_id r) games))"
  by (cases "filter (\<lambda>g. game_id g = bgg_id r) games")
     (simp_all add: left_join_def criterion_cells_def comp_def)

lemma criterion_cells_left_join:
  "criterion_cells (left_join T games) c =
     concat (map (\<lambda>r. dropna (map (\<lambda>g. attributes g c)
                          (filter (\<lambda>g. game_id g = bgg_id r) games))) T)"
proof (induction T)
  case Nil
  show ?case by (simp add: left_join_def criterion_cells_def)
next
  case (Cons r T)
  show ?case
    by (subst left_join_Cons)
       (simp add: criterion_cells_append criterion_cells_left_join_row Cons.IH)
qed


lemma cells_left_join_empty:
  "criterion_cells (left_join T games) c = [] \<longleftrightarrow>
     (\<forall>r \<in> set T. \<forall>g \<in> set games. game_id g = bgg_id r \<longrightarrow> attributes g c = Missing)"
  by (auto simp: criterion_cells_left_join dropna_empty)

lemma user_rows_left_join:
  "user_rows u (left_join T games) = left_join (user_rows u T) games"
proof (induction T)
  case Nil
  show ?case by (simp add: left_join_def user_rows_def)
next
  case (Cons r T)
  have row: "user_rows u (left_join [r] games) =
      (if bgg_user_name r = Some u then left_join [r] games else [])"
    by (cases "filter (\<lambda>g. game_id g = bgg_id r) games")
       (auto simp: left_join_def user_rows_def)
  have "user_rows u (left_join (r # T) games) =
      user_rows u (left_join [r] games) @ user_rows u (left_join T games)"
    by (subst left_join_Cons) (simp add: user_rows_def)
  also have "\<dots> = (if bgg_user_name r = Some u then left_join [r] games else [])
      @ left_join (user_rows u T) games"
    by (simp only: row Cons.IH)
  also have "\<dots> = left_join (user_rows u (r # T)) games"
    by (simp add: user_rows_def left_join_def)
  finally show ?case .
qed

lemma left_join_empty: "left_join T games = [] \<longleftrightarrow> T = []"
proof (cases T)
  case Nil
  then show ?thesis by (simp add: left_join_def)
next
  case (Cons r T')
  have "left_join [r] games \<noteq> []"
    by (cases "filter (\<lambda>g. game_id g = bgg_id r) games") (simp_all add: left_join_def)
  then show ?thesis
    unfolding Cons by (subst left_join_Cons) simp
qed

lemma users_left_join:
  "(\<exists>r \<in> set (left_join T games). bgg_user_name r = Some u) \<longleftrightarrow>
   (\<exists>r \<in> set T. bgg_user_name r = Some u)"
proof -
  have "user_rows u (left_join T games) = [] \<longleftrightarrow> user_rows u T = []"
    by (simp only: user_rows_left_join left_join_empty)
  then show ?thesis
    unfolding user_rows_def filter_empty_conv by blast
qed

lemma group_of_user:
  assumes "\<exists>r \<in> set df. bgg_user_name r = Some u"
  shows "user_rows u df \<in> set (map snd (groupby df))"
proof -
  have "u \<in> set (sort (remdups (List.map_filter bgg_user_name df)))"
    unfolding set_group_keys using assms by blast
  then show ?thesis
    unfolding groupby_user_rows set_map by (rule imageI)
qed



text \<open>
  Claim C3.  The claim says that for a user all of whose recommended items have a missing
  value for a criterion, \<open>diversity\<close> completes and counts zero labels for this user.  The
  code does not: \<^verbatim>\<open>dropna\<close> leaves no cell of the user, \<^verbatim>\<open>np.hstack\<close> has nothing to
  concatenate and raises \<^verbatim>\<open>ValueError\<close>, and so does \<open>diversity\<close>, whatever the other users
  and criterions are.
\<close>

theorem diversity_missing_metadata_raises:
  fixes top_n_df :: "('u::linorder, 'i, 'r) table"
  assumes cols: "\<forall>c \<in> set criterions. c \<in> set (criterion_columns games_df)"
    and c: "c \<in> set criterions"
    and u: "\<exists>r \<in> set top_n_df. bgg_user_name r = Some u"
    and missing: "\<forall>r \<in> set (user_rows u top_n_df). \<forall>g \<in> set (game_rows games_df).
                    game_id g = bgg_id r \<longrightarrow> attributes g c = Missing"
  shows "diversity top_n_df games_df criterions = Inl ValueError"
proof -
  let ?df = "left_join top_n_df (game_rows games_df)"
  have "\<exists>r \<in> set ?df. bgg_user_name r = Some u"
    using u by (simp only: users_left_join)
  then have "user_rows u ?df \<in> set (map snd (groupby ?df))"
    by (rule group_of_user)
  moreover have "criterion_cells (user_rows u ?df) c = []"
    unfolding user_rows_left_join cells_left_join_empty using missing .
  ultimately have "\<exists>user_df \<in> set (map snd (groupby ?df)). \<exists>c \<in> set criterions.
      criterion_cells user_df c = []"
    using c by blast
  then have "users_loop (map snd (groupby ?df)) criterions (\<lambda>c. []) = Inl ValueError"
    by (rule users_loop_raises_any)
  then show ?thesis
    using cols by (simp add: diversity_def Let_def)
qed

theorem diversity_missing_metadata_raises_witness:
  "''category'' \<in> set (criterion_columns no_games_example)
   \<and> (\<exists>r \<in> set top_n_example. bgg_user_name r = Some 1)
   \<and> game_rows no_games_example = []
   \<and> diversity top_n_example no_games_example [''category''] = Inl ValueError"
proof -
  have h1: "\<forall>c \<in> set [''category'']. c \<in> set (criterion_columns no_games_example)"
    by (simp add: no_games_example_def)
  have h2: "''category'' \<in> set [''category'']"
    by simp
  have h3: "\<exists>r \<in> set top_n_example. bgg_user_name r = Some 1"
    by (simp add: top_n_example_def)
  have h4: "\<forall>r \<in> set (user_rows 1 top_n_example). \<forall>g \<in> set (game_rows no_games_example).
      game_id g = bgg_id r \<longrightarrow> attributes g ''category'' = Missing"
    by (simp add: no_games_example_def)
  have "game_rows no_games_example = []"
    by (simp add: no_games_example_def)
  then show ?thesis
    using diversity_missing_metadata_raises [OF h1 h2 h3 h4] h1 h3 by simp
qed





end
